theory Spec2Isabelle
  imports Main
begin

section \<open>The formatter of formatrus (formatter.go), embedded\<close>

text \<open>
  The embedding follows the first (richer) variant of \<open>formatter.go\<close>, the one with the
  \<open>sorter\<close>, the \<open>_order\<close> hint and the message options. Go strings and byte slices are
  \<open>string\<close> (lists of 8-bit characters, so \<open>length\<close> is Go's \<open>len\<close>); Go's \<open>int\<close> is
  \<open>int\<close>: the code compares and subtracts small lengths only, nothing can wrap.
\<close>

subsection \<open>Values, records and the libraries the code calls\<close>

text \<open>
  A field value is an \<open>interface{}\<close>. The code looks at a value in four ways only: the
  type assertions \<open>v.(string)\<close>, \<open>v.([]string)\<close>, \<open>value.(error)\<close> and
  \<open>value.(fmt.Stringer)\<close>; everything else is left to the encoder. \<open>VOther n err str\<close>
  is any value that is neither a string nor a string slice: \<open>n\<close> names it for the encoder,
  \<open>err\<close> is the text of its \<open>Error()\<close> method when it has one, \<open>str\<close> the text of its
  \<open>String()\<close> method when it has one.
\<close>

datatype gvalue =
    VNil
  | VString string
  | VStrings "string list"
  | VOther nat "string option" "string option"

fun asError :: "gvalue \<Rightarrow> string option" where
  "asError (VOther n err str) = err"
| "asError v = None"

fun asStringer :: "gvalue \<Rightarrow> string option" where
  "asStringer (VOther n err str) = str"
| "asStringer v = None"

datatype level =
  PanicLevel | FatalLevel | ErrorLevel | WarnLevel | InfoLevel | DebugLevel | TraceLevel

text \<open>
  \<open>entry.Logger.Out\<close>: an \<open>*os.File\<close> (with what \<open>terminal.IsTerminal\<close> answers for its
  descriptor) or any other writer.
\<close>

datatype writer = OsFile bool | OtherWriter

record entry =
  Logger :: "writer option"
  Time :: nat
  Level :: level
  Message :: string
  Data :: "(string \<times> gvalue) list"
  Buffer :: "string option"

text \<open>
  \<open>Data\<close> is a Go map; the list gives its pairs in the order one \<open>range\<close> over it
  happens to visit them, and \<open>entry.Data[key]\<close> is \<open>dataAt\<close>: a missing key reads as the
  nil interface.
\<close>

definition dataAt :: "entry \<Rightarrow> string \<Rightarrow> gvalue" where
  "dataAt e key = (case map_of (Data e) key of None \<Rightarrow> VNil | Some v \<Rightarrow> v)"

text \<open>
  The libraries are parameters: the eight \<open>ansi.ColorFunc\<close> closures, the layout
  \<open>"Jan 02 15:04:05.000"\<close> of \<open>Time.Format\<close>, \<open>json.Marshal (depict.Portray v)\<close>
  (\<open>None\<close> when \<open>err\<close> is not nil; \<open>data\<close> is nil then), \<open>json.Marshal\<close> of a string, and
  \<open>prettyjson\<close>'s \<open>Format\<close> for a given \<open>Indent\<close> (\<open>None\<close> when it reports an error).
\<close>

record libs =
  green :: "string \<Rightarrow> string"
  yellow :: "string \<Rightarrow> string"
  red :: "string \<Rightarrow> string"
  blue :: "string \<Rightarrow> string"
  cyan :: "string \<Rightarrow> string"
  magenta :: "string \<Rightarrow> string"
  whiteH :: "string \<Rightarrow> string"
  blackH :: "string \<Rightarrow> string"
  timeFormat :: "nat \<Rightarrow> string"
  jsonPortray :: "gvalue \<Rightarrow> string option"
  jsonString :: "string \<Rightarrow> string option"
  prettyFormat :: "nat \<Rightarrow> string \<Rightarrow> string option"

definition noColour :: "string \<Rightarrow> string" where
  "noColour s = s"

definition braketise :: "string \<Rightarrow> string" where
  "braketise s = ''['' @ s @ '']''"

subsection \<open>The sorter\<close>

record sorter =
  order :: "(string \<rightharpoonup> int) option"
  pri :: "(string \<rightharpoonup> int) option"
  keys :: "string list"

text \<open>\<open>strings.Compare\<close>: bytewise lexicographic, \<open>-1\<close>, \<open>0\<close> or \<open>1\<close>.\<close>

fun Compare :: "string \<Rightarrow> string \<Rightarrow> int" where
  "Compare [] [] = 0"
| "Compare [] (y # ys) = - 1"
| "Compare (x # xs) [] = 1"
| "Compare (x # xs) (y # ys) =
     (if (of_char x :: nat) < of_char y then - 1
      else if (of_char y :: nat) < of_char x then 1
      else Compare xs ys)"

text \<open>Indexing a Go map of ints: a missing key reads as \<open>0\<close>.\<close>

definition mapAt :: "(string \<rightharpoonup> int) \<Rightarrow> string \<Rightarrow> int" where
  "mapAt m k = (case m k of None \<Rightarrow> 0 | Some v \<Rightarrow> v)"

text \<open>The body of \<open>sorter.Less\<close> on the two keys it reads.\<close>

definition lessKeys :: "sorter \<Rightarrow> string \<Rightarrow> string \<Rightarrow> bool" where
  "lessKeys s a b =
     (case (case order s of
              None \<Rightarrow> None
            | Some ord \<Rightarrow>
                (let ai = mapAt ord a; bi = mapAt ord b
                 in if ai < bi then Some False else if ai > bi then Some True else None)) of
        Some r \<Rightarrow> r
      | None \<Rightarrow>
          (case (case pri s of
                   None \<Rightarrow> None
                 | Some p \<Rightarrow>
                     (let ap = mapAt p a; bp = mapAt p b
                      in if ap > bp then Some False else if ap < bp then Some True else None)) of
             Some r \<Rightarrow> r
           | None \<Rightarrow> Compare a b < 1))"

definition Less :: "sorter \<Rightarrow> nat \<Rightarrow> nat \<Rightarrow> bool" where
  "Less s i j = lessKeys s (keys s ! i) (keys s ! j)"

text \<open>
  \<open>sort.Sort\<close> and \<open>sort.Strings\<close> are the standard library's. Its insertion sort (the
  one it runs on short slices) is what is written here: element \<open>i\<close> moves left while
  \<open>Less (j, j - 1)\<close> holds. The sorted prefix is kept reversed, its last element first.
\<close>

fun sink :: "(string \<Rightarrow> string \<Rightarrow> bool) \<Rightarrow> string \<Rightarrow> string list \<Rightarrow> string list" where
  "sink lt x [] = [x]"
| "sink lt x (y # ys) = (if lt x y then y # sink lt x ys else x # y # ys)"

definition insertionSort :: "(string \<Rightarrow> string \<Rightarrow> bool) \<Rightarrow> string list \<Rightarrow> string list" where
  "insertionSort lt xs = rev (fold (sink lt) xs [])"

definition Sort :: "sorter \<Rightarrow> string list" where
  "Sort s = insertionSort (lessKeys s) (keys s)"

definition Strings :: "string list \<Rightarrow> string list" where
  "Strings ks = insertionSort (\<lambda>a b. Compare a b < 0) ks"

subsection \<open>The formatter\<close>

text \<open>
  \<open>jsonFmt\<close> is the pointer to the pretty-printer (\<open>None\<close> is nil), kept as its \<open>Indent\<close>;
  \<open>onceDone\<close> is the embedded \<open>sync.Once\<close>.
\<close>

record Formatter =
  LevelLetters :: int
  LevelUpper :: bool
  LevelLower :: bool
  CompactFull :: bool
  CompactSimple :: bool
  MessageAfter :: bool
  CompactMessage :: bool
  ParagraphAll :: bool
  ParagraphBlock :: bool
  Ordering :: "(string \<rightharpoonup> int) option"
  isTerminal :: bool
  jsonFmt :: "nat option"
  onceDone :: bool

definition New :: Formatter where
  "New = \<lparr> LevelLetters = 3, LevelUpper = True, LevelLower = False, CompactFull = False,
           CompactSimple = True, MessageAfter = True, CompactMessage = True,
           ParagraphAll = False, ParagraphBlock = False, Ordering = None,
           isTerminal = False, jsonFmt = None, onceDone = False \<rparr>"

definition Order :: "Formatter \<Rightarrow> int \<Rightarrow> string list \<Rightarrow> Formatter" where
  "Order f priority ks =
     f\<lparr>Ordering :=
         Some (fold (\<lambda>key m. m(key \<mapsto> priority)) ks
                 (case Ordering f of None \<Rightarrow> Map.empty | Some m \<Rightarrow> m))\<rparr>"

datatype panic = TypeAssertion | NegativeRepeat | NilPointer

text \<open>The function passed to \<open>f.Do\<close>, run when the \<open>Once\<close> has not fired yet.\<close>

definition initOnce :: "Formatter \<Rightarrow> entry \<Rightarrow> Formatter" where
  "initOnce f e =
     (if onceDone f then f
      else f\<lparr>isTerminal := (case Logger e of Some (OsFile t) \<Rightarrow> t | _ \<Rightarrow> isTerminal f),
             jsonFmt := Some 1,
             onceDone := True\<rparr>)"

definition levelText3 :: "level \<Rightarrow> string" where
  "levelText3 lv =
     (case lv of InfoLevel \<Rightarrow> ''Inf'' | WarnLevel \<Rightarrow> ''Wrn'' | ErrorLevel \<Rightarrow> ''Err''
      | FatalLevel \<Rightarrow> ''Ftl'' | PanicLevel \<Rightarrow> ''Pnc'' | _ \<Rightarrow> ''Dbg'')"

definition levelText5 :: "level \<Rightarrow> string" where
  "levelText5 lv =
     (case lv of InfoLevel \<Rightarrow> ''Info '' | WarnLevel \<Rightarrow> ''Warn '' | ErrorLevel \<Rightarrow> ''Error''
      | FatalLevel \<Rightarrow> ''Fatal'' | PanicLevel \<Rightarrow> ''Panic'' | _ \<Rightarrow> ''Debug'')"

definition levelColour :: "libs \<Rightarrow> Formatter \<Rightarrow> level \<Rightarrow> string \<Rightarrow> string" where
  "levelColour ext f lv =
     (if \<not> isTerminal f then noColour
      else (case lv of InfoLevel \<Rightarrow> green ext | WarnLevel \<Rightarrow> yellow ext | ErrorLevel \<Rightarrow> red ext
            | FatalLevel \<Rightarrow> red ext | PanicLevel \<Rightarrow> red ext | _ \<Rightarrow> blue ext))"

definition dataColour :: "libs \<Rightarrow> Formatter \<Rightarrow> string \<Rightarrow> string" where
  "dataColour ext f = (if \<not> isTerminal f then noColour else cyan ext)"

definition prefixColour :: "libs \<Rightarrow> Formatter \<Rightarrow> string \<Rightarrow> string" where
  "prefixColour ext f = (if \<not> isTerminal f then noColour else magenta ext)"

definition userColour :: "libs \<Rightarrow> Formatter \<Rightarrow> string \<Rightarrow> string" where
  "userColour ext f = (if \<not> isTerminal f then noColour else whiteH ext)"

definition timeColour :: "libs \<Rightarrow> Formatter \<Rightarrow> string \<Rightarrow> string" where
  "timeColour ext f = (if \<not> isTerminal f then braketise else blackH ext)"

text \<open>
  \<open>strings.ToUpper\<close> and \<open>strings.ToLower\<close> on ASCII text (the level texts are ASCII):
  the letters \<open>a\<close> to \<open>z\<close> go to \<open>A\<close> to \<open>Z\<close> and back, every other byte stays.
\<close>

definition upperByte :: "char \<Rightarrow> char" where
  "upperByte c =
     (case map_of (zip ''abcdefghijklmnopqrstuvwxyz'' ''ABCDEFGHIJKLMNOPQRSTUVWXYZ'') c of
        Some u \<Rightarrow> u
      | None \<Rightarrow> c)"

definition lowerByte :: "char \<Rightarrow> char" where
  "lowerByte c =
     (case map_of (zip ''ABCDEFGHIJKLMNOPQRSTUVWXYZ'' ''abcdefghijklmnopqrstuvwxyz'') c of
        Some l \<Rightarrow> l
      | None \<Rightarrow> c)"

definition ToUpper :: "string \<Rightarrow> string" where
  "ToUpper s = map upperByte s"

definition ToLower :: "string \<Rightarrow> string" where
  "ToLower s = map lowerByte s"

text \<open>Lines 202 to 204: the write back of \<open>LevelLetters\<close>.\<close>

definition fixLevelLetters :: "Formatter \<Rightarrow> Formatter" where
  "fixLevelLetters f = (if LevelLetters f \<le> 0 then f\<lparr>LevelLetters := 3\<rparr> else f)"

text \<open>
  Lines 206 to 212: the slice of the level text, for the formatter after the write back.
  The slices \<open>levelText5[0:4]\<close> and \<open>levelText3[0:n]\<close> with \<open>1 \<le> n \<le> 3\<close> are in range.
\<close>

definition sliceLevelText :: "Formatter \<Rightarrow> level \<Rightarrow> string" where
  "sliceLevelText f lv =
     (if LevelLetters f \<ge> 5 then levelText5 lv
      else if LevelLetters f > 3 then take (nat (LevelLetters f)) (levelText5 lv)
      else take (nat (LevelLetters f)) (levelText3 lv))"

text \<open>Lines 214 to 219: the case folding, as the code has it.\<close>

definition levelText :: "Formatter \<Rightarrow> level \<Rightarrow> string" where
  "levelText f lv =
     (let t0 = sliceLevelText f lv;
          t1 = (if LevelUpper f then ToUpper t0 else t0)
      in if LevelLower f then ToUpper t1 else t1)"

text \<open>Lines 221 to 248: the user and the prefix.\<close>

definition prefixOf :: "libs \<Rightarrow> Formatter \<Rightarrow> entry \<Rightarrow> string" where
  "prefixOf ext f e =
     (let user = (case map_of (Data e) ''user'' of
                    Some (VString v) \<Rightarrow> userColour ext f (v @ ''@'')
                  | _ \<Rightarrow> []);
          p0 = (case map_of (Data e) ''rpc'' of Some (VString v) \<Rightarrow> v | _ \<Rightarrow> []);
          p1 = (case map_of (Data e) ''prefix'' of
                  Some (VString v) \<Rightarrow> (if p0 \<noteq> [] then v @ ''/'' else v) @ p0
                | _ \<Rightarrow> p0);
          p2 = (if p1 \<noteq> [] then prefixColour ext f (p1 @ '':'') else p1);
          p3 = user @ p2
      in if p3 \<noteq> [] then p3 @ '' '' else p3)"

text \<open>Lines 250 to 257: the two \<open>Fprintf\<close> calls that start the line.\<close>

definition headerText :: "libs \<Rightarrow> Formatter \<Rightarrow> entry \<Rightarrow> string" where
  "headerText ext f e =
     timeColour ext f (timeFormat ext (Time e)) @ '' '' @
     levelColour ext f (Level e) (levelText f (Level e)) @
     (if prefixOf ext f e \<noteq> [] then '' '' @ prefixOf ext f e else [])"

text \<open>
  Lines 259 to 275: the loop over \<open>entry.Data\<close>, on the triple \<open>(orders, keys, keySize)\<close>.
  The assertion \<open>v.([]string)\<close> has no \<open>ok\<close> result: it panics on any other value.
\<close>

fun collectKeys ::
  "string \<Rightarrow> (string \<times> gvalue) list \<Rightarrow> string list \<times> string list \<times> int
     \<Rightarrow> panic + (string list \<times> string list \<times> int)" where
  "collectKeys prefix [] st = Inr st"
| "collectKeys prefix ((key, v) # rest) (orders, ks, keySize) =
     (if key = ''_order'' then
        (case v of
           VStrings ss \<Rightarrow> collectKeys prefix rest (ss, ks, keySize)
         | _ \<Rightarrow> Inl TypeAssertion)
      else if (key = ''prefix'' \<or> key = ''rpc'' \<or> key = ''user'') \<and> prefix \<noteq> [] then
        collectKeys prefix rest (orders, ks, keySize)
      else
        collectKeys prefix rest
          (orders, ks @ [key],
           if int (length key) > keySize then int (length key) else keySize))"

text \<open>Lines 280 to 286: the map from each hinted name to its index in the hint.\<close>

definition priOf :: "string list \<Rightarrow> (string \<rightharpoonup> int) option" where
  "priOf orders =
     (if length orders > 0
      then Some (fold (\<lambda>(i, k) m. m(k \<mapsto> int i)) (enumerate 0 orders) Map.empty)
      else None)"

text \<open>Lines 277 to 294.\<close>

definition sortedKeys :: "Formatter \<Rightarrow> string list \<Rightarrow> string list \<Rightarrow> string list" where
  "sortedKeys f orders ks =
     (if Ordering f = None \<and> length orders = 0 then Strings ks
      else Sort \<lparr> order = Ordering f, pri = priOf orders, keys = ks \<rparr>)"

definition capKeySize :: "int \<Rightarrow> int" where
  "capKeySize keySize = (if keySize > 20 then 20 else keySize)"

text \<open>Line 302.\<close>

definition cuddleMessage :: "Formatter \<Rightarrow> string list \<Rightarrow> entry \<Rightarrow> bool" where
  "cuddleMessage f ks e =
     (\<not> MessageAfter f \<or> (CompactMessage f \<and> length ks = 0 \<and> length (Message e) < 100))"

definition bSpace :: string where
  "bSpace = '' ''"

definition bNewline :: string where
  "bNewline = [CHR 0x0A]"

text \<open>Line 307.\<close>

definition padding :: "int \<Rightarrow> string" where
  "padding keySize = CHR 0x0A # replicate (nat (keySize + 4)) CHR '' ''"

subsection \<open>The regular expression \<open>\s*\n\s*\<close> and the two replacements\<close>

text \<open>The class \<open>\s\<close> of Go's \<open>regexp\<close>: tab, newline, form feed, carriage return, space.\<close>

definition isSpace :: "char \<Rightarrow> bool" where
  "isSpace c = (c = CHR 0x09 \<or> c = CHR 0x0A \<or> c = CHR 0x0C \<or> c = CHR 0x0D \<or> c = CHR '' '')"

text \<open>
  A match of \<open>reCompact\<close> that starts at the head of \<open>s\<close>, as the leftmost-first rule
  finds it: the first \<open>\s*\<close> takes \<open>k\<close> characters, the most it can, the next one must be
  the newline, and the second \<open>\s*\<close> takes all the white space that follows; when the
  newline is not there the first star gives one character back. The result is the
  length of the match.
\<close>

definition newlineAt :: "nat \<Rightarrow> string \<Rightarrow> nat option" where
  "newlineAt k s =
     (case drop k s of
        [] \<Rightarrow> None
      | c # rest \<Rightarrow>
          if c = CHR 0x0A then Some (k + 1 + length (takeWhile isSpace rest)) else None)"

fun backtrack :: "nat \<Rightarrow> string \<Rightarrow> nat option" where
  "backtrack 0 s = newlineAt 0 s"
| "backtrack (Suc k) s =
     (case newlineAt (Suc k) s of Some n \<Rightarrow> Some n | None \<Rightarrow> backtrack k s)"

definition matchCompact :: "string \<Rightarrow> nat option" where
  "matchCompact s = backtrack (length (takeWhile isSpace s)) s"

text \<open>
  \<open>reCompact.ReplaceAll (data, repl)\<close>: the matches are taken from left to right, each
  search starting where the last match ended. A match holds its newline, so it is never
  empty, and \<open>drop (n - 1) cs\<close> is what follows a match of length \<open>n\<close> at \<open>c # cs\<close>.
\<close>

fun ReplaceAll :: "string \<Rightarrow> string \<Rightarrow> string" where
  "ReplaceAll [] repl = []"
| "ReplaceAll (c # cs) repl =
     (case matchCompact (c # cs) of
        Some n \<Rightarrow> repl @ ReplaceAll (drop (n - 1) cs) repl
      | None \<Rightarrow> c # ReplaceAll cs repl)"

text \<open>\<open>bytes.Replace (data, old, new, -1)\<close> for an \<open>old\<close> of one byte.\<close>

definition Replace :: "string \<Rightarrow> char \<Rightarrow> string \<Rightarrow> string" where
  "Replace s old new = concat (map (\<lambda>c. if c = old then new else [c]) s)"

subsection \<open>One field, all fields, the whole line\<close>

text \<open>Lines 311 to 325: the encoding of a value, and the second try on \<open>{}\<close>.\<close>

definition marshalValue :: "libs \<Rightarrow> gvalue \<Rightarrow> string option" where
  "marshalValue ext v =
     (case jsonPortray ext v of
        None \<Rightarrow> None
      | Some data \<Rightarrow>
          if length data = 2 \<and> data ! 0 = CHR ''{'' then
            (case asError v of
               Some str \<Rightarrow> if length str > 0 then jsonString ext str else Some data
             | None \<Rightarrow>
                 (case asStringer v of
                    Some str \<Rightarrow> if length str > 0 then jsonString ext str else Some data
                  | None \<Rightarrow> Some data))
          else Some data)"

text \<open>
  Lines 327 to 335: the pretty-printer in a terminal, and \<open>%#v\<close> of the nil slice that
  a failed \<open>json.Marshal\<close> leaves in \<open>data\<close>.
\<close>

definition renderData :: "libs \<Rightarrow> Formatter \<Rightarrow> gvalue \<Rightarrow> panic + string" where
  "renderData ext f v =
     (case marshalValue ext v of
        None \<Rightarrow> Inr ''[]byte(nil)''
      | Some data \<Rightarrow>
          if isTerminal f then
            (case jsonFmt f of
               None \<Rightarrow> Inl NilPointer
             | Some indent \<Rightarrow>
                 (case prettyFormat ext indent data of
                    Some pretty \<Rightarrow> Inr pretty
                  | None \<Rightarrow> Inr data))
          else Inr data)"

text \<open>Lines 337 to 350; \<open>bytes.Repeat\<close> panics on a negative count.\<close>

definition writeField ::
  "libs \<Rightarrow> Formatter \<Rightarrow> int \<Rightarrow> string \<Rightarrow> string \<Rightarrow> string \<Rightarrow> panic + string" where
  "writeField ext f keySize pad key data =
     (if isTerminal f then
        (let l = keySize - int (length key)
         in if l < 0 then Inl NegativeRepeat
            else Inr (bNewline @ ''  '' @ dataColour ext f key @ '': '' @
                      replicate (nat l) CHR '' '' @
                      (if CompactFull f \<or> (CompactSimple f \<and> length data < 100)
                       then ReplaceAll data bSpace
                       else Replace data CHR 0x0A pad)))
      else Inr (''  '' @ key @ ''='' @ data))"

text \<open>Lines 308 to 351: the loop over the sorted keys.\<close>

fun fieldsLoop ::
  "libs \<Rightarrow> Formatter \<Rightarrow> entry \<Rightarrow> int \<Rightarrow> string \<Rightarrow> string list \<Rightarrow> panic + string" where
  "fieldsLoop ext f e keySize pad [] = Inr []"
| "fieldsLoop ext f e keySize pad (key # rest) =
     (case renderData ext f (dataAt e key) of
        Inl p \<Rightarrow> Inl p
      | Inr data \<Rightarrow>
          (case writeField ext f keySize pad key data of
             Inl p \<Rightarrow> Inl p
           | Inr t \<Rightarrow>
               (case fieldsLoop ext f e keySize pad rest of
                  Inl p \<Rightarrow> Inl p
                | Inr ts \<Rightarrow> Inr (t @ ts))))"

text \<open>Lines 354 to 361: what follows the newline that ends the field block.\<close>

definition trailer :: "Formatter \<Rightarrow> bool \<Rightarrow> entry \<Rightarrow> string" where
  "trailer f cuddle e =
     (if \<not> cuddle then
        ''  '' @ Message e @ bNewline @
        (if ParagraphAll f \<or> ParagraphBlock f then bNewline else [])
      else if ParagraphAll f then bNewline
      else [])"

definition bufferBytes :: "entry \<Rightarrow> string" where
  "bufferBytes e = (case Buffer e of None \<Rightarrow> [] | Some b \<Rightarrow> b)"

text \<open>
  \<open>Format\<close>: the formatter as the call leaves it, and either the panic that ends the
  call or the bytes it returns (the error it returns with them is always nil).
\<close>

definition Format :: "libs \<Rightarrow> Formatter \<Rightarrow> entry \<Rightarrow> Formatter \<times> (panic + string)" where
  "Format ext f0 e =
     (let f = fixLevelLetters (initOnce f0 e)
      in (f,
          case collectKeys (prefixOf ext f e) (Data e) ([], [], 5) of
            Inl p \<Rightarrow> Inl p
          | Inr (orders, ks, keySize0) \<Rightarrow>
              (let sorted = sortedKeys f orders ks;
                   keySize = capKeySize keySize0;
                   cuddle = cuddleMessage f sorted e
               in case fieldsLoop ext f e keySize (padding keySize) sorted of
                    Inl p \<Rightarrow> Inl p
                  | Inr block \<Rightarrow>
                      Inr (bufferBytes e @ headerText ext f e @
                           (if cuddle then Message e else []) @
                           block @ bNewline @ trailer f cuddle e))))"

section \<open>The notions the statements use\<close>

subsection \<open>Level width\<close>

text \<open>\<open>clamp (n, lo, hi)\<close>, the arithmetic one.\<close>

definition clamp :: "int \<Rightarrow> int \<Rightarrow> int \<Rightarrow> int" where
  "clamp n lo hi = max lo (min hi n)"

text \<open>
  The width of the claim: a value \<open>\<le> 0\<close> behaves as \<open>3\<close>, a value above \<open>5\<close> as \<open>5\<close>, a value
  in between is itself.
\<close>

definition effectiveWidth :: "int \<Rightarrow> int" where
  "effectiveWidth n = (if n \<le> 0 then 3 else min n 5)"


subsection \<open>Layout of a value\<close>






text \<open>The text of a value as \<open>renderData\<close> gives it, when it gives one.\<close>

definition renderedText :: "libs \<Rightarrow> Formatter \<Rightarrow> gvalue \<Rightarrow> string" where
  "renderedText ext f v = (case renderData ext f v of Inl p \<Rightarrow> [] | Inr data \<Rightarrow> data)"

subsection \<open>Rank of a name in the order hint\<close>

text \<open>
  The index a name has in the map built from the hint: the index of its last
  occurrence there; a name that is not in the hint reads as \<open>0\<close>, as the first hinted
  name does.
\<close>

fun lastIndex :: "string list \<Rightarrow> string \<Rightarrow> nat" where
  "lastIndex [] k = 0"
| "lastIndex (x # xs) k = (if k \<in> set xs then Suc (lastIndex xs k) else 0)"

definition hintIndex :: "string list \<Rightarrow> string \<Rightarrow> int" where
  "hintIndex orders k = int (lastIndex orders k)"

definition hintBefore :: "string list \<Rightarrow> string \<Rightarrow> string \<Rightarrow> bool" where
  "hintBefore orders a b =
     (hintIndex orders a < hintIndex orders b \<or>
      (hintIndex orders a = hintIndex orders b \<and> Compare a b < 0))"

subsection \<open>The text that replaces \<open>{}\<close>\<close>

text \<open>
  The text of \<open>Error()\<close> for a value that is an \<open>error\<close>; for any other value the text of
  \<open>String()\<close>, when it is a \<open>fmt.Stringer\<close>.
\<close>

definition rescueText :: "gvalue \<Rightarrow> string" where
  "rescueText v =
     (case asError v of
        Some t \<Rightarrow> t
      | None \<Rightarrow> (case asStringer v of Some t \<Rightarrow> t | None \<Rightarrow> []))"

subsection \<open>A sample instance of the libraries\<close>

text \<open>
  Colours switched off, one fixed time stamp, an encoder that quotes a string as it is
  (no escapes), writes \<open>{}\<close> for the opaque value \<open>0\<close> and fails on the others, and a
  pretty-printer that gives its input back. It serves to run the model on records.
\<close>

definition quoted :: "string \<Rightarrow> string" where
  "quoted s = CHR 0x22 # s @ [CHR 0x22]"

fun commaJoin :: "string list \<Rightarrow> string" where
  "commaJoin [] = []"
| "commaJoin [s] = s"
| "commaJoin (s # t # ts) = s @ '','' @ commaJoin (t # ts)"

definition plainLibs :: libs where
  "plainLibs =
     \<lparr> green = (\<lambda>s. s), yellow = (\<lambda>s. s), red = (\<lambda>s. s), blue = (\<lambda>s. s),
       cyan = (\<lambda>s. s), magenta = (\<lambda>s. s), whiteH = (\<lambda>s. s), blackH = (\<lambda>s. s),
       timeFormat = (\<lambda>t. ''Jan 02 15:04:05.000''),
       jsonPortray =
         (\<lambda>v. case v of
                 VNil \<Rightarrow> Some ''null''
               | VString s \<Rightarrow> Some (quoted s)
               | VStrings ss \<Rightarrow> Some (''['' @ commaJoin (map quoted ss) @ '']'')
               | VOther n err str \<Rightarrow> if n = 0 then Some ''{}'' else None),
       jsonString = (\<lambda>s. Some (quoted s)),
       prettyFormat = (\<lambda>indent s. Some s) \<rparr>"

definition sampleEntry :: "string \<Rightarrow> (string \<times> gvalue) list \<Rightarrow> entry" where
  "sampleEntry msg kvs =
     \<lparr> Logger = None, Time = 0, Level = InfoLevel, Message = msg, Data = kvs, Buffer = None \<rparr>"

definition terminalEntry :: "string \<Rightarrow> (string \<times> gvalue) list \<Rightarrow> entry" where
  "terminalEntry msg kvs =
     \<lparr> Logger = Some (OsFile True), Time = 0, Level = InfoLevel, Message = msg, Data = kvs,
       Buffer = None \<rparr>"

section \<open>Proofs\<close>

subsection \<open>The level abbreviation\<close>




lemma effectiveWidth_clamp: "effectiveWidth n = (if n \<le> 0 then 3 else clamp n 1 5)"
  by (simp add: effectiveWidth_def clamp_def min_def max_def)




text \<open>
  Claim C4 says that with \<open>LevelLower\<close> set and \<open>LevelUpper\<close> not set the abbreviation is
  the lowercase fold of the slice. The code calls \<open>strings.ToUpper\<close> in the \<open>LevelLower\<close>
  branch too (line 218), so what it shows is the uppercase fold.
\<close>

theorem level_lower_folds_to_upper:
  "LevelLower f \<Longrightarrow> \<not> LevelUpper f \<Longrightarrow> levelText f lv = ToUpper (sliceLevelText f lv)"
  by (simp add: levelText_def)

theorem level_lower_folds_to_upper_witness:
  "LevelLower (New\<lparr>LevelUpper := False, LevelLower := True\<rparr>)
   \<and> levelText (New\<lparr>LevelUpper := False, LevelLower := True\<rparr>) InfoLevel = ''INF''
   \<and> ToLower (sliceLevelText (New\<lparr>LevelUpper := False, LevelLower := True\<rparr>) InfoLevel) = ''inf''"
  using level_lower_folds_to_upper [of "New\<lparr>LevelUpper := False, LevelLower := True\<rparr>" InfoLevel]
  by (simp add: New_def sliceLevelText_def levelText3_def ToUpper_def upperByte_def
      ToLower_def lowerByte_def)

subsection \<open>What a call changes in the formatter\<close>

lemma fst_Format: "fst (Format ext f e) = fixLevelLetters (initOnce f e)"
  by (simp add: Format_def Let_def)

text \<open>
  Claim C10. A call of \<open>Format\<close>, whether it returns or panics, leaves every configuration
  field as it was, except \<open>LevelLetters\<close>, which becomes \<open>3\<close> when it was \<open>\<le> 0\<close> (a value
  above \<open>5\<close> is not written back); the \<open>Once\<close> has fired afterwards, and the interactivity
  flag and the pretty-printer are set by the first call only.
\<close>

theorem Format_frame:
  "LevelLetters (fst (Format ext f e)) = (if LevelLetters f \<le> 0 then 3 else LevelLetters f)
   \<and> LevelUpper (fst (Format ext f e)) = LevelUpper f
   \<and> LevelLower (fst (Format ext f e)) = LevelLower f
   \<and> CompactFull (fst (Format ext f e)) = CompactFull f
   \<and> CompactSimple (fst (Format ext f e)) = CompactSimple f
   \<and> MessageAfter (fst (Format ext f e)) = MessageAfter f
   \<and> CompactMessage (fst (Format ext f e)) = CompactMessage f
   \<and> ParagraphAll (fst (Format ext f e)) = ParagraphAll f
   \<and> ParagraphBlock (fst (Format ext f e)) = ParagraphBlock f
   \<and> Ordering (fst (Format ext f e)) = Ordering f
   \<and> onceDone (fst (Format ext f e))
   \<and> isTerminal (fst (Format ext f e))
       = (if onceDone f then isTerminal f
          else (case Logger e of Some (OsFile t) \<Rightarrow> t | _ \<Rightarrow> isTerminal f))
   \<and> jsonFmt (fst (Format ext f e)) = (if onceDone f then jsonFmt f else Some 1)"
  by (simp add: fst_Format fixLevelLetters_def initOnce_def)

theorem Format_frame_witness:
  "fst (Format plainLibs (New\<lparr>LevelLetters := 0\<rparr>) (sampleEntry ''ready'' []))
     = New\<lparr>jsonFmt := Some 1, onceDone := True\<rparr>
   \<and> LevelLetters (fst (Format plainLibs (New\<lparr>LevelLetters := 9\<rparr>) (sampleEntry ''ready'' []))) = 9"
  using Format_frame [of plainLibs "New\<lparr>LevelLetters := 0\<rparr>" "sampleEntry ''ready'' []"]
    Format_frame [of plainLibs "New\<lparr>LevelLetters := 9\<rparr>" "sampleEntry ''ready'' []"]
  by (simp add: New_def sampleEntry_def)

subsection \<open>Panics\<close>

lemma collectKeys_bad_order:
  "(''_order'', v) \<in> set kvs \<Longrightarrow> (\<forall>ss. v \<noteq> VStrings ss)
     \<Longrightarrow> collectKeys prefix kvs st = Inl TypeAssertion"
proof (induction prefix kvs st rule: collectKeys.induct)
  case (1 prefix st)
  then show ?case by simp
next
  case (2 prefix key w rest orders ks keySize)
  show ?case
  proof (cases "key = ''_order''")
    case True
    show ?thesis
    proof (cases "\<exists>ss. w = VStrings ss")
      case True
      then obtain ss where w: "w = VStrings ss" by blast
      with 2(4,5) have "(''_order'', v) \<in> set rest" by auto
      with 2(1)[OF \<open>key = ''_order''\<close> w] 2(5) w \<open>key = ''_order''\<close> show ?thesis by simp
    next
      case False
      with \<open>key = ''_order''\<close> show ?thesis by (cases w) simp_all
    qed
  next
    case False
    with 2(4) have mem: "(''_order'', v) \<in> set rest" by auto
    show ?thesis
    proof (cases "(key = ''prefix'' \<or> key = ''rpc'' \<or> key = ''user'') \<and> prefix \<noteq> []")
      case True
      have "collectKeys prefix rest (orders, ks, keySize) = Inl TypeAssertion"
        using 2(2)[OF \<open>key \<noteq> ''_order''\<close> True mem 2(5)] .
      with \<open>key \<noteq> ''_order''\<close> True show ?thesis by auto
    next
      case False
      have "collectKeys prefix rest
              (orders, ks @ [key],
               if int (length key) > keySize then int (length key) else keySize)
            = Inl TypeAssertion"
        using 2(3)[OF \<open>key \<noteq> ''_order''\<close> False mem 2(5)] .
      with \<open>key \<noteq> ''_order''\<close> False show ?thesis by auto
    qed
  qed
qed

text \<open>
  Claim C2 says that \<open>Format\<close> returns bytes whatever the values are, the one under
  \<open>_order\<close> included. The assertion \<open>v.([]string)\<close> of line 265 has no \<open>ok\<close> result: a record
  whose \<open>_order\<close> value is anything but a string slice makes the call panic.
\<close>

theorem order_hint_assertion_panics:
  "(''_order'', v) \<in> set (Data e) \<Longrightarrow> (\<forall>ss. v \<noteq> VStrings ss)
     \<Longrightarrow> snd (Format ext f e) = Inl TypeAssertion"
proof -
  assume a: "(''_order'', v) \<in> set (Data e)" and b: "\<forall>ss. v \<noteq> VStrings ss"
  have "collectKeys (prefixOf ext (fixLevelLetters (initOnce f e)) e) (Data e) ([], [], 5)
          = Inl TypeAssertion"
    using a b by (rule collectKeys_bad_order)
  then show ?thesis by (simp add: Format_def Let_def)
qed

theorem order_hint_assertion_panics_witness:
  "snd (Format plainLibs New (sampleEntry ''ready'' [(''_order'', VString ''x'')]))
     = Inl TypeAssertion"
  using order_hint_assertion_panics
    [of "VString ''x''" "sampleEntry ''ready'' [(''_order'', VString ''x'')]" plainLibs New]
  by (simp add: sampleEntry_def)

subsection \<open>The header line\<close>

text \<open>
  Claim C3 says that a cuddled message is joined to the level abbreviation by a space
  also when the prefix is empty. The code writes \<open>"%s %s"\<close> for time and level, a space
  only in front of a non-empty prefix, and then the message: with no prefix the message
  follows the level at once.
\<close>

theorem cuddled_message_glued_to_level:
  "snd (Format ext New (sampleEntry ''ready'' []))
     = Inr (''['' @ timeFormat ext 0 @ ''] INFready'' @ [CHR 0x0A])"
  by (simp add: Format_def Let_def New_def sampleEntry_def fixLevelLetters_def initOnce_def
      prefixOf_def sortedKeys_def Strings_def insertionSort_def capKeySize_def
      cuddleMessage_def headerText_def timeColour_def braketise_def levelColour_def
      noColour_def levelText_def sliceLevelText_def levelText3_def ToUpper_def upperByte_def
      bufferBytes_def bNewline_def trailer_def)

theorem cuddled_message_glued_to_level_witness:
  "snd (Format plainLibs New (sampleEntry ''ready'' []))
     = Inr (''[Jan 02 15:04:05.000] INFready'' @ [CHR 0x0A])"
  using cuddled_message_glued_to_level [of plainLibs]
  by (simp add: plainLibs_def)

subsection \<open>Sorting\<close>

text \<open>
  \<open>strings.Compare\<close> is a total order, and the insertion sort returns a sorted permutation
  of its input for every comparison that is transitive and total.
\<close>

lemma Compare_refl: "Compare a a = 0"
  by (induction a) auto

lemma Compare_eq_0: "Compare a b = 0 \<longleftrightarrow> a = b"
  by (induction a b rule: Compare.induct) (auto split: if_splits)

lemma Compare_total: "Compare a b < 1 \<or> Compare b a < 1"
  by (induction a b rule: Compare.induct) (auto split: if_splits)

lemma Compare_le_iff: "Compare a b < 1 \<longleftrightarrow> Compare a b < 0 \<or> a = b"
  by (induction a b rule: Compare.induct) (auto split: if_splits)

lemma Compare_trans: "Compare a b < 1 \<Longrightarrow> Compare b c < 1 \<Longrightarrow> Compare a c < 1"
proof (induction a b arbitrary: c rule: Compare.induct)
  case 1
  then show ?case by simp
next
  case (2 y ys)
  then show ?case by (cases c) simp_all
next
  case (3 x xs)
  then show ?case by simp
next
  case (4 x xs y ys)
  show ?case
  proof (cases c)
    case Nil
    with 4(3) show ?thesis by simp
  next
    case (Cons z zs)
    have xy: "\<not> (of_char y :: nat) < of_char x"
      using 4(2) by (simp split: if_splits)
    have yz: "\<not> (of_char z :: nat) < of_char y"
      using 4(3) Cons by (simp split: if_splits)
    show ?thesis
    proof (cases "(of_char x :: nat) < of_char z")
      case True
      then show ?thesis using Cons by simp
    next
      case False
      with xy yz have e1: "(of_char x :: nat) = of_char y" and e2: "(of_char y :: nat) = of_char z"
        by linarith+
      have "Compare xs ys < 1" using 4(2) e1 by simp
      moreover have "Compare ys zs < 1" using 4(3) Cons e2 by simp
      ultimately have "Compare xs zs < 1" using 4(1) e1 by simp
      then show ?thesis using Cons e1 e2 by simp
    qed
  qed
qed

lemma set_sink: "set (sink lt x ys) = insert x (set ys)"
  by (induction ys) auto

lemma length_sink: "length (sink lt x ys) = Suc (length ys)"
  by (induction ys) auto

lemma distinct_sink: "distinct ys \<Longrightarrow> x \<notin> set ys \<Longrightarrow> distinct (sink lt x ys)"
  by (induction ys) (auto simp: set_sink)

lemma sorted_sink:
  assumes tr: "\<And>a b c. lt a b \<Longrightarrow> lt b c \<Longrightarrow> lt a c"
      and tot: "\<And>a b. lt a b \<or> lt b a"
  shows "sorted_wrt (\<lambda>a b. lt b a) ys \<Longrightarrow> sorted_wrt (\<lambda>a b. lt b a) (sink lt x ys)"
proof (induction ys)
  case Nil
  then show ?case by simp
next
  case (Cons y ys)
  show ?case
  proof (cases "lt x y")
    case True
    with Cons show ?thesis by (auto simp: set_sink)
  next
    case False
    then have yx: "lt y x" using tot by blast
    have "\<forall>z \<in> set ys. lt z x"
    proof
      fix z assume "z \<in> set ys"
      with Cons.prems have "lt z y" by simp
      then show "lt z x" using yx tr by blast
    qed
    with False yx Cons.prems show ?thesis by simp
  qed
qed

lemma fold_sink_props:
  assumes tr: "\<And>a b c. lt a b \<Longrightarrow> lt b c \<Longrightarrow> lt a c"
      and tot: "\<And>a b. lt a b \<or> lt b a"
  shows "sorted_wrt (\<lambda>a b. lt b a) acc \<Longrightarrow> sorted_wrt (\<lambda>a b. lt b a) (fold (sink lt) xs acc)"
proof (induction xs arbitrary: acc)
  case Nil
  then show ?case by simp
next
  case (Cons x xs)
  have "sorted_wrt (\<lambda>a b. lt b a) (sink lt x acc)"
    using tr tot Cons.prems by (rule sorted_sink)
  then show ?case using Cons.IH by simp
qed

lemma set_fold_sink: "set (fold (sink lt) xs acc) = set xs \<union> set acc"
  by (induction xs arbitrary: acc) (auto simp: set_sink)

lemma length_fold_sink: "length (fold (sink lt) xs acc) = length xs + length acc"
  by (induction xs arbitrary: acc) (auto simp: length_sink)

lemma distinct_fold_sink:
  "distinct acc \<Longrightarrow> distinct xs \<Longrightarrow> set xs \<inter> set acc = {} \<Longrightarrow> distinct (fold (sink lt) xs acc)"
proof (induction xs arbitrary: acc)
  case Nil
  then show ?case by simp
next
  case (Cons x xs)
  have "distinct (sink lt x acc)" using Cons.prems by (auto intro: distinct_sink)
  moreover have "set xs \<inter> set (sink lt x acc) = {}" using Cons.prems by (auto simp: set_sink)
  ultimately show ?case using Cons.IH[of "sink lt x acc"] Cons.prems by simp
qed

lemma insertionSort_sorted:
  assumes tr: "\<And>a b c. lt a b \<Longrightarrow> lt b c \<Longrightarrow> lt a c"
      and tot: "\<And>a b. lt a b \<or> lt b a"
  shows "sorted_wrt lt (insertionSort lt xs)"
proof -
  have "sorted_wrt (\<lambda>a b. lt b a) (fold (sink lt) xs [])"
    by (rule fold_sink_props[OF tr tot]) simp_all
  then show ?thesis by (simp add: insertionSort_def sorted_wrt_rev)
qed

lemma set_insertionSort: "set (insertionSort lt xs) = set xs"
  by (simp add: insertionSort_def set_fold_sink)

lemma length_insertionSort: "length (insertionSort lt xs) = length xs"
  by (simp add: insertionSort_def length_fold_sink)

lemma distinct_insertionSort: "distinct xs \<Longrightarrow> distinct (insertionSort lt xs)"
  by (simp add: insertionSort_def distinct_fold_sink)

subsection \<open>The order hint\<close>

lemma lessKeys_pri:
  "lessKeys \<lparr> order = None, pri = Some p, keys = ks \<rparr> a b
     \<longleftrightarrow> mapAt p a < mapAt p b \<or> (mapAt p a = mapAt p b \<and> Compare a b < 1)"
  by (auto simp: lessKeys_def Let_def)

lemma lessKeys_pri_trans:
  assumes "lessKeys \<lparr> order = None, pri = Some p, keys = ks \<rparr> a b"
      and "lessKeys \<lparr> order = None, pri = Some p, keys = ks \<rparr> b c"
  shows "lessKeys \<lparr> order = None, pri = Some p, keys = ks \<rparr> a c"
proof -
  from assms have
    ab: "mapAt p a < mapAt p b \<or> (mapAt p a = mapAt p b \<and> Compare a b < 1)" and
    bc: "mapAt p b < mapAt p c \<or> (mapAt p b = mapAt p c \<and> Compare b c < 1)"
    by (simp_all only: lessKeys_pri)
  have "mapAt p a < mapAt p c \<or> (mapAt p a = mapAt p c \<and> Compare a c < 1)"
  proof (cases "mapAt p a = mapAt p b \<and> mapAt p b = mapAt p c")
    case True
    with ab bc have "Compare a b < 1" "Compare b c < 1" by simp_all
    then have "Compare a c < 1" by (rule Compare_trans)
    with True show ?thesis by simp
  next
    case False
    with ab bc show ?thesis by linarith
  qed
  then show ?thesis by (simp only: lessKeys_pri)
qed

lemma lessKeys_pri_total:
  "lessKeys \<lparr> order = None, pri = Some p, keys = ks \<rparr> a b
   \<or> lessKeys \<lparr> order = None, pri = Some p, keys = ks \<rparr> b a"
  using Compare_total [of a b] unfolding lessKeys_pri by linarith

lemma fold_hint_index:
  "fold (\<lambda>(i, k) m. m(k \<mapsto> int i)) (enumerate n xs) m0 k
     = (if k \<in> set xs then Some (int (n + lastIndex xs k)) else m0 k)"
proof (induction xs arbitrary: n m0)
  case Nil
  then show ?case by simp
next
  case (Cons x xs)
  show ?case
    using Cons.IH [of "Suc n" "m0(x \<mapsto> int n)"] by auto
qed

lemma mapAt_priOf:
  assumes "orders \<noteq> []"
  shows "\<exists>p. priOf orders = Some p \<and> (\<forall>k. mapAt p k = hintIndex orders k)"
proof -
  let ?p = "fold (\<lambda>(i, k) m. m(k \<mapsto> int i)) (enumerate 0 orders) Map.empty"
  have "priOf orders = Some ?p" using assms(1) by (simp add: priOf_def)
  moreover have "mapAt ?p k = hintIndex orders k" for k
  proof (cases "k \<in> set orders")
    case True
    then show ?thesis by (simp add: mapAt_def hintIndex_def fold_hint_index)
  next
    case False
    then have "lastIndex orders k = 0" by (cases orders) simp_all
    with False show ?thesis by (simp add: mapAt_def hintIndex_def fold_hint_index)
  qed
  ultimately show ?thesis by blast
qed

lemma sorted_wrt_distinct_strict:
  "sorted_wrt P xs \<Longrightarrow> distinct xs \<Longrightarrow> sorted_wrt (\<lambda>a b. P a b \<and> a \<noteq> b) xs"
  by (induction xs) auto

text \<open>
  The order \<open>hintBefore\<close> leaves one arrangement only of a set of names: what the sort
  returns depends neither on the order in which the \<open>range\<close> visits the map nor on the
  sorting procedure.
\<close>

lemma Compare_antisym: "Compare a b < 1 \<Longrightarrow> Compare b a < 1 \<Longrightarrow> a = b"
proof (induction a b rule: Compare.induct)
  case (4 x xs y ys)
  show ?case
  proof (cases "(of_char x :: nat) = of_char y")
    case True
    then have xy: "x = y" by simp
    with 4 show ?thesis by simp
  next
    case False
    with 4(2,3) show ?thesis by (auto split: if_splits)
  qed
qed simp_all

lemma hintBefore_asym: "hintBefore orders a b \<Longrightarrow> \<not> hintBefore orders b a"
  using Compare_antisym [of a b] Compare_eq_0 [of a b]
  by (auto simp: hintBefore_def)

lemma sorted_wrt_asym_unique:
  assumes asym: "\<And>a b. P a b \<Longrightarrow> \<not> P b a"
  shows "sorted_wrt P xs \<Longrightarrow> sorted_wrt P ys \<Longrightarrow> distinct xs \<Longrightarrow> distinct ys
           \<Longrightarrow> set xs = set ys \<Longrightarrow> xs = ys"
proof (induction xs arbitrary: ys)
  case Nil
  then show ?case by simp
next
  case (Cons x xs)
  from Cons.prems(5) obtain y ys' where ys: "ys = y # ys'" by (cases ys) auto
  have "x = y"
  proof (rule ccontr)
    assume ne: "x \<noteq> y"
    from Cons.prems(5) ys ne have "x \<in> set ys'" by auto
    with Cons.prems(2) ys have 1: "P y x" by simp
    from Cons.prems(5) ys ne have "y \<in> set xs" by auto
    with Cons.prems(1) have 2: "P x y" by simp
    from asym [OF 1] 2 show False by simp
  qed
  moreover have "set xs = set ys'"
    using Cons.prems(3,4,5) ys \<open>x = y\<close> by auto
  moreover have "xs = ys'"
    using Cons.IH [of ys'] Cons.prems ys \<open>set xs = set ys'\<close> by simp
  ultimately show ?case using ys by simp
qed

lemma hintBefore_sorted_unique:
  "sorted_wrt (hintBefore orders) xs \<Longrightarrow> sorted_wrt (hintBefore orders) ys
     \<Longrightarrow> distinct xs \<Longrightarrow> distinct ys \<Longrightarrow> set xs = set ys \<Longrightarrow> xs = ys"
  by (rule sorted_wrt_asym_unique [where P = "hintBefore orders"]) (auto dest: hintBefore_asym)

text \<open>
  Claim C1, as the code has it. With no \<open>Ordering\<close> map and a non-empty hint, the sorted
  names are the collected names (each once), in ascending order of their index in the
  hint, names of equal index in bytewise lexicographic order. A name that is not in the
  hint reads as index \<open>0\<close> in the map built from the hint (lines 66 to 68), the index of
  the first hinted name: it does not sort after the hinted names.
\<close>

theorem hint_order_sorted:
  assumes "Ordering f = None" and "orders \<noteq> []" and "distinct ks"
  shows "set (sortedKeys f orders ks) = set ks
         \<and> distinct (sortedKeys f orders ks)
         \<and> sorted_wrt (hintBefore orders) (sortedKeys f orders ks)"
proof -
  from mapAt_priOf [OF assms(2)] obtain p where
    p: "priOf orders = Some p" and idx: "\<And>k. mapAt p k = hintIndex orders k"
    by blast
  let ?s = "\<lparr> order = None, pri = Some p, keys = ks \<rparr>"
  have sk: "sortedKeys f orders ks = insertionSort (lessKeys ?s) ks"
    using assms(1,2) p by (simp add: sortedKeys_def Sort_def)
  have srt: "sorted_wrt (lessKeys ?s) (insertionSort (lessKeys ?s) ks)"
    by (rule insertionSort_sorted) (blast intro: lessKeys_pri_trans, rule lessKeys_pri_total)
  have dst: "distinct (insertionSort (lessKeys ?s) ks)"
    using assms(3) by (rule distinct_insertionSort)
  have "sorted_wrt (\<lambda>a b. lessKeys ?s a b \<and> a \<noteq> b) (insertionSort (lessKeys ?s) ks)"
    using srt dst by (rule sorted_wrt_distinct_strict)
  moreover have "lessKeys ?s a b \<and> a \<noteq> b \<Longrightarrow> hintBefore orders a b" for a b
    by (auto simp: lessKeys_pri idx hintBefore_def Compare_le_iff)
  ultimately have "sorted_wrt (hintBefore orders) (insertionSort (lessKeys ?s) ks)"
    by (rule sorted_wrt_mono_rel [rotated]) blast
  with dst show ?thesis by (simp add: sk set_insertionSort)
qed

theorem hint_order_sorted_witness:
  "set (sortedKeys New [''z'', ''a''] [''z'', ''a'', ''m'']) = {''z'', ''a'', ''m''}
   \<and> sorted_wrt (hintBefore [''z'', ''a'']) (sortedKeys New [''z'', ''a''] [''z'', ''a'', ''m''])"
  using hint_order_sorted [where f = New and orders = "[''z'', ''a'']" and ks = "[''z'', ''a'', ''m'']"]
  by (simp add: New_def)

text \<open>
  The claim as stated fails on its own example: with the hint \<open>z, a\<close> and the extra
  field \<open>m\<close>, the sorted order is \<open>m, z, a\<close> and not \<open>z, a, m\<close>.
\<close>

theorem hint_absent_name_counterexample:
  "collectKeys [] [(''z'', VString ''1''), (''a'', VString ''2''), (''m'', VString ''3''),
                   (''_order'', VStrings [''z'', ''a''])] ([], [], 5)
     = Inr ([''z'', ''a''], [''z'', ''a'', ''m''], 5)
   \<and> sortedKeys New [''z'', ''a''] [''z'', ''a'', ''m''] = [''m'', ''z'', ''a'']
   \<and> sortedKeys New [''z'', ''a''] [''z'', ''a'', ''m''] \<noteq> [''z'', ''a'', ''m'']"
  by (simp add: sortedKeys_def New_def Sort_def insertionSort_def lessKeys_def priOf_def
      mapAt_def Let_def enumerate_eq_zip)

subsection \<open>The two replacements\<close>















subsection \<open>The field block and the whole line\<close>

lemma renderData_Inr: "renderData ext f v = Inr data \<Longrightarrow> renderedText ext f v = data"
  by (simp add: renderedText_def)


lemma fieldsLoop_plain:
  "fieldsLoop ext f e keySize pad ks = Inr block \<Longrightarrow> \<not> isTerminal f \<Longrightarrow>
   block = concat (map (\<lambda>key. ''  '' @ key @ ''='' @ renderedText ext f (dataAt e key)) ks)"
proof (induction ks arbitrary: block)
  case Nil
  then show ?case by simp
next
  case (Cons key rest)
  from Cons.prems(1) obtain data t ts where
    r: "renderData ext f (dataAt e key) = Inr data" and
    w: "writeField ext f keySize pad key data = Inr t" and
    l: "fieldsLoop ext f e keySize pad rest = Inr ts" and
    b: "block = t @ ts"
    by (auto split: sum.splits)
  from w Cons.prems(2) have "t = ''  '' @ key @ ''='' @ data"
    by (simp add: writeField_def)
  with b Cons.IH [OF l Cons.prems(2)] renderData_Inr [OF r] show ?case by simp
qed

lemma Format_Inr:
  assumes "Format ext f0 e = (f, Inr out)"
      and "collectKeys (prefixOf ext f e) (Data e) ([], [], 5) = Inr (orders, ks, k0)"
  shows "\<exists>block.
           fieldsLoop ext f e (capKeySize k0) (padding (capKeySize k0)) (sortedKeys f orders ks)
             = Inr block
         \<and> out = bufferBytes e @ headerText ext f e @
                 (if cuddleMessage f (sortedKeys f orders ks) e then Message e else []) @
                 block @ bNewline @ trailer f (cuddleMessage f (sortedKeys f orders ks) e) e"
proof -
  from assms(1) have f: "f = fixLevelLetters (initOnce f0 e)"
    by (simp add: Format_def Let_def)
  from assms(1) assms(2) [unfolded f] show ?thesis
    unfolding f by (auto simp: Format_def Let_def split: sum.splits)
qed

lemma Format_config:
  assumes "Format ext f0 e = (f, r)"
  shows "MessageAfter f = MessageAfter f0 \<and> CompactMessage f = CompactMessage f0
         \<and> ParagraphAll f = ParagraphAll f0 \<and> ParagraphBlock f = ParagraphBlock f0"
proof -
  from assms have "f = fixLevelLetters (initOnce f0 e)"
    by (simp add: Format_def Let_def)
  then show ?thesis by (simp add: fixLevelLetters_def initOnce_def)
qed

lemma length_sortedKeys: "length (sortedKeys f orders ks) = length ks"
  by (simp add: sortedKeys_def Strings_def Sort_def length_insertionSort)

lemma sortedKeys_Nil_iff: "sortedKeys f orders ks = [] \<longleftrightarrow> ks = []"
  using length_sortedKeys [of f orders ks] by (metis length_0_conv)

lemmas eval_defs =
  Format_def Let_def New_def sampleEntry_def terminalEntry_def plainLibs_def quoted_def
  fixLevelLetters_def initOnce_def prefixOf_def sortedKeys_def Strings_def Sort_def
  insertionSort_def lessKeys_def priOf_def mapAt_def capKeySize_def cuddleMessage_def
  headerText_def timeColour_def braketise_def levelColour_def dataColour_def
  prefixColour_def userColour_def noColour_def levelText_def sliceLevelText_def
  levelText3_def levelText5_def ToUpper_def upperByte_def bufferBytes_def bNewline_def
  bSpace_def trailer_def padding_def dataAt_def renderData_def marshalValue_def
  writeField_def

text \<open>
  Claim C5. When \<open>Format\<close> returns, the message stands right after the header exactly
  when \<open>MessageAfter\<close> is off, or \<open>CompactMessage\<close> is on, no field name was collected and
  the message is shorter than \<open>100\<close>; in every other case it comes after the field block
  and its newline, on a line of its own, indented by two spaces.
\<close>

theorem message_placement:
  assumes "Format ext f0 e = (f, Inr out)"
      and "collectKeys (prefixOf ext f e) (Data e) ([], [], 5) = Inr (orders, ks, k0)"
  shows "\<exists>block.
           fieldsLoop ext f e (capKeySize k0) (padding (capKeySize k0)) (sortedKeys f orders ks)
             = Inr block
         \<and> out = bufferBytes e @ headerText ext f e @
             (if \<not> MessageAfter f0 \<or>
                 (CompactMessage f0 \<and> ks = [] \<and> length (Message e) < 100)
              then Message e @ block @ bNewline @ (if ParagraphAll f0 then bNewline else [])
              else block @ bNewline @ ''  '' @ Message e @ bNewline @
                   (if ParagraphAll f0 \<or> ParagraphBlock f0 then bNewline else []))"
proof -
  from Format_Inr [OF assms] obtain block where
    l: "fieldsLoop ext f e (capKeySize k0) (padding (capKeySize k0)) (sortedKeys f orders ks)
          = Inr block" and
    o: "out = bufferBytes e @ headerText ext f e @
              (if cuddleMessage f (sortedKeys f orders ks) e then Message e else []) @
              block @ bNewline @ trailer f (cuddleMessage f (sortedKeys f orders ks) e) e"
    by blast
  have c: "cuddleMessage f (sortedKeys f orders ks) e
             \<longleftrightarrow> \<not> MessageAfter f0 \<or>
                 (CompactMessage f0 \<and> ks = [] \<and> length (Message e) < 100)"
    using Format_config [OF assms(1)] by (simp add: cuddleMessage_def sortedKeys_Nil_iff)
  have "out = bufferBytes e @ headerText ext f e @
             (if \<not> MessageAfter f0 \<or>
                 (CompactMessage f0 \<and> ks = [] \<and> length (Message e) < 100)
              then Message e @ block @ bNewline @ (if ParagraphAll f0 then bNewline else [])
              else block @ bNewline @ ''  '' @ Message e @ bNewline @
                   (if ParagraphAll f0 \<or> ParagraphBlock f0 then bNewline else []))"
    unfolding o c using Format_config [OF assms(1)] by (simp add: trailer_def)
  with l show ?thesis by blast
qed

theorem message_placement_witness:
  "Format plainLibs New (sampleEntry ''ready'' [(''k'', VString ''v'')])
     = (New\<lparr>jsonFmt := Some 1, onceDone := True\<rparr>,
        Inr (''[Jan 02 15:04:05.000] INF  k='' @ quoted ''v'' @ [CHR 0x0A] @ ''  ready'' @ [CHR 0x0A]))
   \<and> collectKeys [] [(''k'', VString ''v'')] ([], [], 5) = Inr ([], [''k''], 5)
   \<and> (\<exists>block.
         fieldsLoop plainLibs (New\<lparr>jsonFmt := Some 1, onceDone := True\<rparr>)
           (sampleEntry ''ready'' [(''k'', VString ''v'')]) 5 (padding 5) [''k''] = Inr block
       \<and> ''[Jan 02 15:04:05.000] INF  k='' @ quoted ''v'' @ [CHR 0x0A] @ ''  ready'' @ [CHR 0x0A]
           = ''[Jan 02 15:04:05.000] INF'' @ block @ [CHR 0x0A] @ ''  ready'' @ [CHR 0x0A])"
proof -
  let ?e = "sampleEntry ''ready'' [(''k'', VString ''v'')]"
  let ?f = "New\<lparr>jsonFmt := Some 1, onceDone := True\<rparr>"
  let ?out = "''[Jan 02 15:04:05.000] INF  k='' @ quoted ''v'' @ [CHR 0x0A] @ ''  ready'' @ [CHR 0x0A]"
  have h1: "Format plainLibs New ?e = (?f, Inr ?out)"
    by (simp add: eval_defs)
  have p: "prefixOf plainLibs ?f ?e = []"
    by (simp add: eval_defs)
  have h2: "collectKeys (prefixOf plainLibs ?f ?e) (Data ?e) ([], [], 5) = Inr ([], [''k''], 5)"
    unfolding p by (simp add: sampleEntry_def)
  have s: "sortedKeys ?f [] [''k''] = [''k'']"
    by (simp add: eval_defs)
  have hd: "headerText plainLibs ?f ?e = ''[Jan 02 15:04:05.000] INF''"
    by (simp add: eval_defs)
  show ?thesis
    using message_placement [OF h1 h2] h1 h2
    unfolding p s hd by (simp add: sampleEntry_def New_def bufferBytes_def capKeySize_def bNewline_def)
qed



text \<open>
  Claim C9, as the code has it. Outside a terminal, when \<open>Format\<close> returns, the fields
  follow the header (and the message, when it is cuddled) as \<open>"  key=value"\<close> pairs with
  nothing written between them, no newline before any pair. One newline ends the field
  block; after it a cuddled record has one more newline when \<open>ParagraphAll\<close> is set.
\<close>

theorem plain_fields_inline:
  assumes "Format ext f0 e = (f, Inr out)" and "\<not> isTerminal f"
      and "collectKeys (prefixOf ext f e) (Data e) ([], [], 5) = Inr (orders, ks, k0)"
  shows "out = bufferBytes e @ headerText ext f e @
           (if cuddleMessage f (sortedKeys f orders ks) e then Message e else []) @
           concat (map (\<lambda>key. ''  '' @ key @ ''='' @ renderedText ext f (dataAt e key))
             (sortedKeys f orders ks)) @
           bNewline @ trailer f (cuddleMessage f (sortedKeys f orders ks) e) e
         \<and> (cuddleMessage f (sortedKeys f orders ks) e \<longrightarrow>
              out = bufferBytes e @ headerText ext f e @ Message e @
                concat (map (\<lambda>key. ''  '' @ key @ ''='' @ renderedText ext f (dataAt e key))
                  (sortedKeys f orders ks)) @
                bNewline @ (if ParagraphAll f then bNewline else []))"
proof -
  from Format_Inr [OF assms(1,3)] obtain block where
    l: "fieldsLoop ext f e (capKeySize k0) (padding (capKeySize k0)) (sortedKeys f orders ks)
          = Inr block" and
    o: "out = bufferBytes e @ headerText ext f e @
              (if cuddleMessage f (sortedKeys f orders ks) e then Message e else []) @
              block @ bNewline @ trailer f (cuddleMessage f (sortedKeys f orders ks) e) e"
    by blast
  from fieldsLoop_plain [OF l assms(2)] o show ?thesis
    by (simp add: trailer_def)
qed

theorem plain_fields_inline_witness:
  "Format plainLibs (New\<lparr>MessageAfter := False\<rparr>)
     (sampleEntry ''ready'' [(''k'', VString ''v''), (''a'', VString ''b'')])
     = (New\<lparr>MessageAfter := False, jsonFmt := Some 1, onceDone := True\<rparr>,
        Inr (''[Jan 02 15:04:05.000] INFready  a='' @ quoted ''b'' @ ''  k='' @ quoted ''v'' @ [CHR 0x0A]))
   \<and> \<not> isTerminal (New\<lparr>MessageAfter := False, jsonFmt := Some 1, onceDone := True\<rparr>)
   \<and> cuddleMessage (New\<lparr>MessageAfter := False, jsonFmt := Some 1, onceDone := True\<rparr>)
         [''a'', ''k''] (sampleEntry ''ready'' [(''k'', VString ''v''), (''a'', VString ''b'')])"
proof -
  let ?kvs = "[(''k'', VString ''v''), (''a'', VString ''b'')]"
  let ?e = "sampleEntry ''ready'' ?kvs"
  let ?f = "New\<lparr>MessageAfter := False, jsonFmt := Some 1, onceDone := True\<rparr>"
  have p: "prefixOf plainLibs ?f ?e = []"
    by (simp add: eval_defs)
  have h2: "collectKeys (prefixOf plainLibs ?f ?e) (Data ?e) ([], [], 5)
              = Inr ([], [''k'', ''a''], 5)"
    unfolding p by (simp add: sampleEntry_def)
  have s: "sortedKeys ?f [] [''k'', ''a''] = [''a'', ''k'']"
    by (simp add: eval_defs)
  have rt: "renderedText plainLibs ?f (dataAt ?e ''a'') = quoted ''b''"
           "renderedText plainLibs ?f (dataAt ?e ''k'') = quoted ''v''"
    by (simp_all add: renderedText_def eval_defs)
  have hd: "headerText plainLibs ?f ?e = ''[Jan 02 15:04:05.000] INF''"
    by (simp add: eval_defs)
  have t: "\<not> isTerminal ?f" by (simp add: New_def)
  have m: "Message ?e = ''ready''" "bufferBytes ?e = []"
    by (simp_all add: sampleEntry_def bufferBytes_def)
  have c: "cuddleMessage ?f [''a'', ''k''] ?e"
    by (simp add: cuddleMessage_def New_def)
  have pa: "\<not> ParagraphAll ?f" by (simp add: New_def)
  obtain out where h1: "Format plainLibs (New\<lparr>MessageAfter := False\<rparr>) ?e = (?f, Inr out)"
    by (simp add: eval_defs)
  have "out = ''[Jan 02 15:04:05.000] INFready  a='' @ quoted ''b'' @ ''  k='' @ quoted ''v'' @ [CHR 0x0A]"
    using plain_fields_inline [OF h1 t h2] c
    unfolding s hd list.map concat.simps rt m
    by (simp add: pa bNewline_def New_def trailer_def)
  with h1 t c show ?thesis by simp
qed

text \<open>
  The claim as stated, one newline at the end of a cuddled record whatever its fields,
  fails with \<open>ParagraphAll\<close> set: two newlines end the record.
\<close>

theorem paragraph_all_second_newline_counterexample:
  "\<not> isTerminal (fst (Format plainLibs (New\<lparr>MessageAfter := False, ParagraphAll := True\<rparr>)
                        (sampleEntry ''ready'' [(''k'', VString ''v'')])))
   \<and> snd (Format plainLibs (New\<lparr>MessageAfter := False, ParagraphAll := True\<rparr>)
            (sampleEntry ''ready'' [(''k'', VString ''v'')]))
       = Inr (''[Jan 02 15:04:05.000] INFready  k='' @ quoted ''v'' @ [CHR 0x0A, CHR 0x0A])"
  by (simp add: eval_defs)

subsection \<open>The second try on \<open>{}\<close>\<close>

text \<open>
  Claim C8, as the code has it. For a value whose encoding is exactly \<open>{}\<close>: when the
  value is an \<open>error\<close>, the text of \<open>Error()\<close> is encoded in its place if it is not empty,
  and \<open>{}\<close> stays if it is empty, \<open>String()\<close> not being looked at then (the \<open>else if\<close> of
  line 319); when the value is no \<open>error\<close> but a \<open>fmt.Stringer\<close>, the text of \<open>String()\<close> is
  encoded if it is not empty.
\<close>

theorem rescue_text_encoded:
  assumes "jsonPortray ext v = Some ''{}''"
  shows "marshalValue ext v
           = (if rescueText v \<noteq> [] then jsonString ext (rescueText v) else Some ''{}'')"
  using assms by (simp add: marshalValue_def rescueText_def split: option.splits)

theorem rescue_text_encoded_witness:
  "jsonPortray plainLibs (VOther 0 (Some ''boom'') (Some ''x'')) = Some ''{}''
   \<and> marshalValue plainLibs (VOther 0 (Some ''boom'') (Some ''x'')) = Some (quoted ''boom'')
   \<and> marshalValue plainLibs (VOther 0 None (Some ''boom'')) = Some (quoted ''boom'')"
proof -
  have jp: "jsonPortray plainLibs (VOther 0 a b) = Some ''{}''" for a b
    by (simp add: plainLibs_def)
  have js: "jsonString plainLibs t = Some (quoted t)" for t
    by (simp add: plainLibs_def)
  show ?thesis
    using rescue_text_encoded [OF jp [of "Some ''boom''" "Some ''x''"]]
      rescue_text_encoded [OF jp [of None "Some ''boom''"]]
    by (simp add: jp js rescueText_def)
qed

text \<open>
  The claim as stated fails for a value that is an \<open>error\<close> with an empty text and a
  \<open>fmt.Stringer\<close> with the text \<open>boom\<close>: its stringer text is not empty, and the field
  shows \<open>{}\<close>.
\<close>

theorem rescue_empty_error_counterexample:
  "jsonPortray plainLibs (VOther 0 (Some []) (Some ''boom'')) = Some ''{}''
   \<and> asStringer (VOther 0 (Some []) (Some ''boom'')) = Some ''boom''
   \<and> marshalValue plainLibs (VOther 0 (Some []) (Some ''boom'')) = Some ''{}''
   \<and> marshalValue plainLibs (VOther 0 (Some []) (Some ''boom'')) \<noteq> jsonString plainLibs ''boom''
   \<and> snd (Format plainLibs (New\<lparr>MessageAfter := False\<rparr>)
             (sampleEntry ''ready'' [(''err'', VOther 0 (Some []) (Some ''boom''))]))
       = Inr (''[Jan 02 15:04:05.000] INFready  err={}'' @ [CHR 0x0A])"
  by (simp add: eval_defs)

end
